theory Spec2Isabelle
  imports
    Main
    "HOL-Library.Char_ord"
    "HOL-Library.List_Lexorder"
    "HOL-Library.Multiset"
begin

section \<open>Strings\<close>

text \<open>
  The server is Python: a \<open>str\<close> is a sequence of code points, compared
  lexicographically by code point. Strings are modelled as \<^typ>\<open>string\<close>, a
  \<^typ>\<open>char\<close> standing for a code point below 256; the order on them is the
  lexicographic one of \<open>List_Lexorder\<close> over \<open>Char_ord\<close>, which is Python's
  \<open><\<close> on such strings. Code points from 256 on are outside the model.
\<close>

definition codepoint :: "char \<Rightarrow> nat" where
  "codepoint c = of_char c"

text \<open>\<open>str.lower()\<close>: the letters A..Z and the Latin-1 capitals (192..222 but the
  multiplication sign 215) move up by 32; every other code point below 256 stays.\<close>

definition lower_char :: "char \<Rightarrow> char" where
  "lower_char c =
     (if (65 \<le> codepoint c \<and> codepoint c \<le> 90)
         \<or> (192 \<le> codepoint c \<and> codepoint c \<le> 222 \<and> codepoint c \<noteq> 215)
      then char_of (codepoint c + 32) else c)"

definition lower :: "string \<Rightarrow> string" where
  "lower s = map lower_char s"

text \<open>\<open>str.isspace()\<close> on one code point below 256: tab, line feed, vertical tab,
  form feed, carriage return, the four separators 28..31, space, NEL and the
  no-break space.\<close>

definition is_space :: "char \<Rightarrow> bool" where
  "is_space c = (codepoint c \<in> {9, 10, 11, 12, 13, 28, 29, 30, 31, 32, 133, 160})"

text \<open>\<open>str.strip()\<close> with no argument.\<close>

definition strip :: "string \<Rightarrow> string" where
  "strip s = rev (dropWhile is_space (rev (dropWhile is_space s)))"

text \<open>\<open>s.split(sep)\<close> for a separator of one character: never an empty list.\<close>

fun split_on :: "char \<Rightarrow> string \<Rightarrow> string list" where
  "split_on sep [] = [[]]"
| "split_on sep (c # cs) =
     (if c = sep then [] # split_on sep cs
      else (case split_on sep cs of [] \<Rightarrow> [[c]] | l # ls \<Rightarrow> (c # l) # ls))"

text \<open>\<open>sep.join(parts)\<close>.\<close>

fun join :: "string \<Rightarrow> string list \<Rightarrow> string" where
  "join sep [] = []"
| "join sep [x] = x"
| "join sep (x # y # ys) = x @ sep @ join sep (y # ys)"

text \<open>The line boundaries of \<open>str.splitlines()\<close> below 256: line feed, vertical tab,
  form feed, carriage return, the separators 28..30 and NEL; a carriage return
  followed by a line feed is one boundary.\<close>

definition is_linebreak :: "char \<Rightarrow> bool" where
  "is_linebreak c = (codepoint c \<in> {10, 11, 12, 13, 28, 29, 30, 133})"

text \<open>\<open>split_acc line s\<close>: the lines of \<open>s\<close>, the first one prefixed by \<open>line\<close>, the
  part of the current line already read. As in Python the boundaries are dropped and
  a text that ends at a boundary has no empty last line.\<close>

fun split_acc :: "string \<Rightarrow> string \<Rightarrow> string list" where
  "split_acc line [] = (if line = [] then [] else [line])"
| "split_acc line (c # cs) =
     (if codepoint c = 13 then
        (case cs of
           [] \<Rightarrow> [line]
         | d # ds \<Rightarrow> if codepoint d = 10 then line # split_acc [] ds else line # split_acc [] cs)
      else if is_linebreak c then line # split_acc [] cs
      else split_acc (line @ [c]) cs)"

definition splitlines :: "string \<Rightarrow> string list" where
  "splitlines s = split_acc [] s"

text \<open>\<open>xs[start:]\<close> and \<open>xs[:stop]\<close> for a Python integer: a negative index counts
  from the end, and an index out of range is clamped.\<close>

definition slice_from :: "'a list \<Rightarrow> int \<Rightarrow> 'a list" where
  "slice_from xs start =
     (let n = int (length xs);
          i = (if start < 0 then max (start + n) 0 else min start n)
      in drop (nat i) xs)"

definition slice_to :: "'a list \<Rightarrow> int \<Rightarrow> 'a list" where
  "slice_to xs stop =
     (let n = int (length xs);
          i = (if stop < 0 then max (stop + n) 0 else min stop n)
      in take (nat i) xs)"

section \<open>Workflow events and their aggregation\<close>

text \<open>
  An event of the feed is a JSON object. \<open>dict.get\<close> gives \<open>None\<close> for a key
  that is missing, and for a field of the run that is a JSON null: those are
  \<^const>\<open>None\<close> here. The fields have the types of the data model: the entry
  \<open>workflow_run\<close>, when present, is an object; the workflow id is an integer or a
  string (the keys of the dictionary, equal only when they are the same value); the
  name and the timestamp are strings; the other fields are passed on as they are.
\<close>

datatype wid = IntId int | StrId string

record workflow_run =
  workflow_id :: "wid option"
  name :: "string option"
  status :: "string option"
  conclusion :: "string option"
  html_url :: "string option"
  created_at :: "string option"

record event =
  event_type :: "string option"
  workflow_run :: "workflow_run option"

text \<open>One value of the dictionary \<open>workflow_statuses\<close>: the stored name and timestamp
  passed the truthiness test, so they are strings.\<close>

record workflow_status =
  st_name :: string
  st_status :: "string option"
  st_conclusion :: "string option"
  st_url :: "string option"
  st_created_at :: string

text \<open>\<open>event.get("workflow_run", {})\<close>: the empty dictionary when the key is missing.\<close>

definition empty_run :: workflow_run where
  "empty_run = \<lparr>workflow_id = None, name = None, status = None, conclusion = None,
     html_url = None, created_at = None\<rparr>"

definition run_of :: "event \<Rightarrow> workflow_run" where
  "run_of ev = (case workflow_run ev of None \<Rightarrow> empty_run | Some r \<Rightarrow> r)"

text \<open>Python truthiness of the three fields the guard tests.\<close>

fun truthy_id :: "wid option \<Rightarrow> bool" where
  "truthy_id None = False"
| "truthy_id (Some (IntId n)) = (n \<noteq> 0)"
| "truthy_id (Some (StrId s)) = (s \<noteq> [])"

fun truthy_str :: "string option \<Rightarrow> bool" where
  "truthy_str None = False"
| "truthy_str (Some s) = (s \<noteq> [])"

text \<open>A Python dictionary keeps insertion order: assigning to a key that is present
  replaces the value in place, assigning to a new key appends.\<close>

fun dict_set :: "('k \<times> 'v) list \<Rightarrow> 'k \<Rightarrow> 'v \<Rightarrow> ('k \<times> 'v) list" where
  "dict_set [] k v = [(k, v)]"
| "dict_set ((k', v') # d) k v = (if k' = k then (k, v) # d else (k', v') # dict_set d k v)"

text \<open>The body of the loop of \<open>get_workflow_status\<close>, on the dictionary built so far.
  Every \<^const>\<open>the\<close> stands behind the truthiness test of its field.\<close>

definition process_event ::
  "string option \<Rightarrow> (wid \<times> workflow_status) list \<Rightarrow> event \<Rightarrow> (wid \<times> workflow_status) list" where
  "process_event workflow_name workflow_statuses ev =
     (if event_type ev = Some ''workflow_run'' then
        (let run = run_of ev in
         if truthy_id (workflow_id run) \<and> truthy_str (name run) \<and> truthy_str (created_at run) then
           if truthy_str workflow_name \<and> lower (the workflow_name) \<noteq> lower (the (name run))
           then workflow_statuses
           else if map_of workflow_statuses (the (workflow_id run)) = None
                   \<or> the (created_at run)
                        > st_created_at (the (map_of workflow_statuses (the (workflow_id run))))
           then dict_set workflow_statuses (the (workflow_id run))
                  \<lparr>st_name = the (name run), st_status = status run,
                   st_conclusion = conclusion run, st_url = html_url run,
                   st_created_at = the (created_at run)\<rparr>
           else workflow_statuses
         else workflow_statuses)
      else workflow_statuses)"

definition workflow_statuses :: "string option \<Rightarrow> event list \<Rightarrow> (wid \<times> workflow_status) list" where
  "workflow_statuses workflow_name events = foldl (process_event workflow_name) [] events"

text \<open>\<open>result.sort(key=..., reverse=True)\<close>: a stable sort, descending; entries with
  equal keys keep their order.\<close>

definition sort_desc :: "workflow_status list \<Rightarrow> workflow_status list" where
  "sort_desc xs = rev (sort_key st_created_at (rev xs))"

text \<open>What \<open>_get_events\<close> gave: the error dictionary, or the list of events.\<close>

datatype fetched = FetchError string | Feed "event list"

datatype status_result =
    StatusError string
  | StatusMessage string
  | Statuses "workflow_status list"

definition get_workflow_status :: "fetched \<Rightarrow> string option \<Rightarrow> status_result" where
  "get_workflow_status events workflow_name =
     (case events of
        FetchError msg \<Rightarrow> StatusError msg
      | Feed evs \<Rightarrow>
          if evs = [] then
            StatusMessage ''No GitHub Actions events received yet. Looked at EVENTS_URL''
          else Statuses (sort_desc (map snd (workflow_statuses workflow_name evs))))"

subsection \<open>The raw view of the feed\<close>

definition EVENTS_URL :: string where
  "EVENTS_URL = ''http://localhost:8080/events''"

datatype recent_result =
    RecentError string
  | RecentMessage string
  | RecentEvents "event list"

text \<open>\<open>events[-limit:]\<close> is the slice from the index \<open>-limit\<close>.\<close>

definition get_recent_actions_events :: "fetched \<Rightarrow> int \<Rightarrow> recent_result" where
  "get_recent_actions_events events limit =
     (case events of
        FetchError msg \<Rightarrow> RecentError msg
      | Feed evs \<Rightarrow>
          if evs = [] then
            RecentMessage (''No GitHub Actions events received yet. Looked at '' @ EVENTS_URL)
          else RecentEvents (slice_from evs (- limit)))"

section \<open>Template selection\<close>

record template =
  filename :: string
  template_type :: string
  content :: string

text \<open>Both tables are dictionaries with distinct keys, in the order of the source.\<close>

definition DEFAULT_TEMPLATES :: "(string \<times> string) list" where
  "DEFAULT_TEMPLATES =
     [(''bug.md'', ''Bug Fix''),
      (''feature.md'', ''Feature''),
      (''docs.md'', ''Documentation''),
      (''refactor.md'', ''Refactor''),
      (''test.md'', ''Test''),
      (''performance.md'', ''Performance''),
      (''security.md'', ''Security'')]"

definition TYPE_MAPPING :: "(string \<times> string) list" where
  "TYPE_MAPPING =
     [(''bug'', ''bug.md''),
      (''fix'', ''bug.md''),
      (''feature'', ''feature.md''),
      (''enhancement'', ''feature.md''),
      (''docs'', ''docs.md''),
      (''documentation'', ''docs.md''),
      (''refactor'', ''refactor.md''),
      (''cleanup'', ''refactor.md''),
      (''test'', ''test.md''),
      (''testing'', ''test.md''),
      (''performance'', ''performance.md''),
      (''optimization'', ''performance.md''),
      (''security'', ''security.md'')]"

datatype py_error = ReadError string | IndexError

text \<open>The template directory: the text of each file by name, \<^const>\<open>None\<close> where
  \<open>read_text\<close> raises.\<close>

type_synonym template_dir = "string \<Rightarrow> string option"

fun load_templates :: "template_dir \<Rightarrow> (string \<times> string) list \<Rightarrow> py_error + template list" where
  "load_templates dir [] = Inr []"
| "load_templates dir ((fname, ttype) # rest) =
     (case dir fname of
        None \<Rightarrow> Inl (ReadError fname)
      | Some text \<Rightarrow>
          (case load_templates dir rest of
             Inl e \<Rightarrow> Inl e
           | Inr ts \<Rightarrow> Inr (\<lparr>filename = fname, template_type = ttype, content = text\<rparr> # ts)))"

definition get_pr_templates :: "template_dir \<Rightarrow> py_error + template list" where
  "get_pr_templates dir = load_templates dir DEFAULT_TEMPLATES"

text \<open>\<open>TYPE_MAPPING.get(change_type.lower(), "feature.md")\<close>.\<close>

definition template_file :: "string \<Rightarrow> string" where
  "template_file change_type =
     (case map_of TYPE_MAPPING (lower change_type) of None \<Rightarrow> ''feature.md'' | Some f \<Rightarrow> f)"

text \<open>\<open>next((t for t in templates if ...), templates[0])\<close>: the default is evaluated
  before the search, so an empty list raises.\<close>

definition selected_template :: "template list \<Rightarrow> string \<Rightarrow> py_error + template" where
  "selected_template templates change_type =
     (case templates of
        [] \<Rightarrow> Inl IndexError
      | first # _ \<Rightarrow>
          (case find (\<lambda>t. filename t = template_file change_type) templates of
             None \<Rightarrow> Inr first
           | Some t \<Rightarrow> Inr t))"

record suggestion =
  recommended_template :: template
  reasoning :: string
  template_content :: string
  usage_hint :: string

definition suggest_template :: "template_dir \<Rightarrow> string \<Rightarrow> string \<Rightarrow> py_error + suggestion" where
  "suggest_template dir changes_summary change_type =
     (case get_pr_templates dir of
        Inl e \<Rightarrow> Inl e
      | Inr templates \<Rightarrow>
          (case selected_template templates change_type of
             Inl e \<Rightarrow> Inl e
           | Inr t \<Rightarrow>
               Inr \<lparr>recommended_template = t,
                    reasoning = ''Based on your analysis: '' @ [CHR 0x27] @ changes_summary
                      @ [CHR 0x27] @ '', this appears to be a '' @ change_type @ '' change.'',
                    template_content = content t,
                    usage_hint = ''Claude can help you fill out this template based on the specific changes in your PR.''\<rparr>))"

section \<open>Change collection\<close>

text \<open>
  The git commands are the environment: a runner gives, for an argument vector and a
  working directory, what \<open>subprocess.run\<close> meets: a completed process (return code,
  standard output, standard error) or an exception of the call itself.
\<close>

datatype proc_result = Completed int string string | Raised string

type_synonym runner = "string list \<Rightarrow> string \<Rightarrow> proc_result"

datatype run_outcome = Ran string | CalledProcessError string | OtherException string

text \<open>\<open>subprocess.run(argv, cwd=..., capture_output=True, text=True, check=...)\<close>, read
  for its \<open>stdout\<close>: with \<open>check\<close> a return code other than 0 raises
  \<open>CalledProcessError\<close>, which carries the standard error.\<close>

definition run :: "runner \<Rightarrow> string list \<Rightarrow> string \<Rightarrow> bool \<Rightarrow> run_outcome" where
  "run git argv cwd check =
     (case git argv cwd of
        Raised msg \<Rightarrow> OtherException msg
      | Completed returncode out err \<Rightarrow>
          if check \<and> returncode \<noteq> 0 then CalledProcessError err else Ran out)"

record change_set =
  changed_files :: "string list"
  statistics :: string
  diff :: string
  truncated :: bool
  diff_line_count :: int
  commits :: "string option"

text \<open>The list comprehension over the name and status listing.\<close>

definition changed_files_of :: "string \<Rightarrow> string list" where
  "changed_files_of out =
     map strip (filter (\<lambda>line. strip line \<noteq> []) (split_on (CHR 0x0A) (strip out)))"

text \<open>The literal appended to a truncated diff. It is a plain string literal of the
  source, not a formatted one, so the braces are part of the text.\<close>

definition truncation_trailer :: string where
  "truncation_trailer =
     [CHR 0x0A, CHR 0x0A]
     @ ''... Output truncated. Showing {max_diff_lines} of {len(diff_lines)} lines ...''
     @ [CHR 0x0A]
     @ ''... Use max_diff_lines parameter to see more ...''"

definition diff_placeholder :: string where
  "diff_placeholder = ''Diff not included (set include_diff=true to see full diff)''"

text \<open>The block under \<open>if include_diff\<close>, once the diff command has completed: the
  text kept, the flag and the line count.\<close>

definition bounded_diff :: "string \<Rightarrow> int \<Rightarrow> string \<times> bool \<times> int" where
  "bounded_diff out max_diff_lines =
     (let diff_lines = splitlines out;
          diff_line_count = int (length diff_lines)
      in if diff_line_count > max_diff_lines
         then (join [CHR 0x0A] (slice_to diff_lines max_diff_lines) @ truncation_trailer,
               True, diff_line_count)
         else (out, False, diff_line_count))"

text \<open>\<open>_get_git_changes\<close>. \<^const>\<open>Inl\<close> carries the text of the \<open>error\<close> entry.\<close>

definition get_git_changes :: "runner \<Rightarrow> string \<Rightarrow> string \<Rightarrow> bool \<Rightarrow> int \<Rightarrow> string + change_set" where
  "get_git_changes git working_dir base_branch include_diff max_diff_lines =
     (case run git [''git'', ''diff'', ''--name-status'', base_branch @ ''...HEAD''] working_dir True of
        CalledProcessError err \<Rightarrow> Inl (''Git error: '' @ err)
      | OtherException msg \<Rightarrow> Inl (''Failed to get changed files or stats: '' @ msg)
      | Ran result_stdout \<Rightarrow>
     (case run git [''git'', ''diff'', ''--stat'', base_branch @ ''...HEAD''] working_dir False of
        CalledProcessError err \<Rightarrow> Inl (''Git error: '' @ err)
      | OtherException msg \<Rightarrow> Inl (''Failed to get changed files or stats: '' @ msg)
      | Ran stat_stdout \<Rightarrow>
          if include_diff then
            (case run git [''git'', ''diff'', base_branch @ ''...HEAD''] working_dir True of
               CalledProcessError err \<Rightarrow> Inl (''Git error: '' @ err)
             | OtherException msg \<Rightarrow> Inl (''Failed to get diff or commits: '' @ msg)
             | Ran diff_stdout \<Rightarrow>
            (case run git [''git'', ''log'', ''--oneline'', base_branch @ ''..HEAD''] working_dir False of
               CalledProcessError err \<Rightarrow> Inl (''Git error: '' @ err)
             | OtherException msg \<Rightarrow> Inl (''Failed to get diff or commits: '' @ msg)
             | Ran commits_stdout \<Rightarrow>
                 (case bounded_diff diff_stdout max_diff_lines of
                    (text, trunc, n) \<Rightarrow>
                      Inr \<lparr>changed_files = changed_files_of result_stdout,
                           statistics = stat_stdout,
                           diff = text, truncated = trunc, diff_line_count = n,
                           commits = Some commits_stdout\<rparr>)))
          else
            Inr \<lparr>changed_files = changed_files_of result_stdout,
                 statistics = stat_stdout,
                 diff = diff_placeholder, truncated = False, diff_line_count = 0,
                 commits = None\<rparr>))"

section \<open>Notions used in the properties\<close>

text \<open>An event the loop looks at: a workflow run whose id, name and timestamp are all truthy.\<close>

definition valid_run :: "event \<Rightarrow> bool" where
  "valid_run ev \<longleftrightarrow>
     event_type ev = Some ''workflow_run'' \<and> truthy_id (workflow_id (run_of ev))
     \<and> truthy_str (name (run_of ev)) \<and> truthy_str (created_at (run_of ev))"

text \<open>The test on the name: no filter (or an empty one), or equal names once lowered.\<close>

definition name_matches :: "string option \<Rightarrow> event \<Rightarrow> bool" where
  "name_matches workflow_name ev \<longleftrightarrow>
     \<not> (truthy_str workflow_name \<and> lower (the workflow_name) \<noteq> lower (the (name (run_of ev))))"

text \<open>An event that reaches the update of the dictionary.\<close>

definition accepted :: "string option \<Rightarrow> event \<Rightarrow> bool" where
  "accepted workflow_name ev \<longleftrightarrow> valid_run ev \<and> name_matches workflow_name ev"

text \<open>The key, the timestamp and the entry the loop takes from an event it accepts.\<close>

definition event_id :: "event \<Rightarrow> wid" where
  "event_id ev = the (workflow_id (run_of ev))"

definition event_created :: "event \<Rightarrow> string" where
  "event_created ev = the (created_at (run_of ev))"

definition status_of :: "event \<Rightarrow> workflow_status" where
  "status_of ev =
     \<lparr>st_name = the (name (run_of ev)), st_status = status (run_of ev),
      st_conclusion = conclusion (run_of ev), st_url = html_url (run_of ev),
      st_created_at = the (created_at (run_of ev))\<rparr>"

text \<open>\<open>ev\<close> is, among the accepted events of \<open>evs\<close> with the id \<open>k\<close>, the first one whose
  timestamp is the greatest: every earlier one is strictly older, no later one is newer.\<close>

definition latest_first :: "string option \<Rightarrow> wid \<Rightarrow> event list \<Rightarrow> event \<Rightarrow> bool" where
  "latest_first wn k evs ev \<longleftrightarrow>
     (\<exists>pre post. evs = pre @ ev # post \<and> accepted wn ev \<and> event_id ev = k
        \<and> (\<forall>e\<in>set pre. accepted wn e \<and> event_id e = k \<longrightarrow> event_created e < event_created ev)
        \<and> (\<forall>e\<in>set post. accepted wn e \<and> event_id e = k \<longrightarrow> event_created e \<le> event_created ev))"

text \<open>The entries of a result; an error or a message has none.\<close>

definition status_entries :: "status_result \<Rightarrow> workflow_status list" where
  "status_entries r = (case r of Statuses xs \<Rightarrow> xs | _ \<Rightarrow> [])"

text \<open>The name of the event is present and equals the filter up to case.\<close>

definition same_name :: "string \<Rightarrow> event \<Rightarrow> bool" where
  "same_name f ev = (case name (run_of ev) of None \<Rightarrow> False | Some nm \<Rightarrow> lower f = lower nm)"

text \<open>Sample events: runs of the workflow 1, named CI, and runs with a chosen id and name.\<close>

definition ci_run :: "string \<Rightarrow> string \<Rightarrow> event" where
  "ci_run created concl =
     \<lparr>event_type = Some ''workflow_run'',
      workflow_run = Some \<lparr>workflow_id = Some (IntId 1), name = Some ''CI'',
        status = Some ''completed'', conclusion = Some concl, html_url = None,
        created_at = Some created\<rparr>\<rparr>"

definition named_run :: "int \<Rightarrow> string \<Rightarrow> string \<Rightarrow> string \<Rightarrow> event" where
  "named_run i nm created concl =
     \<lparr>event_type = Some ''workflow_run'',
      workflow_run = Some \<lparr>workflow_id = Some (IntId i), name = Some nm,
        status = Some ''completed'', conclusion = Some concl, html_url = None,
        created_at = Some created\<rparr>\<rparr>"

text \<open>For every id, the accepted events that carry the greatest timestamp of that id
  give the same entry. Nothing is asked of events that share an older timestamp.\<close>

definition latest_ties_agree :: "string option \<Rightarrow> event list \<Rightarrow> bool" where
  "latest_ties_agree wn evs \<longleftrightarrow>
     (\<forall>e\<in>set evs. \<forall>e'\<in>set evs.
        accepted wn e \<and> accepted wn e' \<and> event_id e = event_id e'
        \<and> event_created e = event_created e'
        \<and> (\<forall>x\<in>set evs. accepted wn x \<and> event_id x = event_id e
              \<longrightarrow> event_created x \<le> event_created e)
        \<longrightarrow> status_of e = status_of e')"

text \<open>A sample environment: the four commands against the base \<open>main\<close> complete, the
  diff command with a chosen output; any other command fails.\<close>

definition sample_listing :: string where
  "sample_listing = ''M'' @ [CHR 0x09] @ ''server.py'' @ [CHR 0x0A]"

definition sample_git :: "string \<Rightarrow> runner" where
  "sample_git diff_out argv cwd =
     (if argv = [''git'', ''diff'', ''--name-status'', ''main...HEAD'']
        then Completed 0 sample_listing []
      else if argv = [''git'', ''diff'', ''--stat'', ''main...HEAD'']
        then Completed 0 '' server.py | 2 +-'' []
      else if argv = [''git'', ''diff'', ''main...HEAD''] then Completed 0 diff_out []
      else if argv = [''git'', ''log'', ''--oneline'', ''main..HEAD'']
        then Completed 0 ''abc1234 Fix server'' []
      else Completed 128 [] ''fatal: bad revision'')"

text \<open>The lines of the trailer after the line feed that ends the last kept line: an
  empty line and two lines of text.\<close>

definition trailer_block :: "string list" where
  "trailer_block =
     [[], ''... Output truncated. Showing {max_diff_lines} of {len(diff_lines)} lines ...'',
      ''... Use max_diff_lines parameter to see more ...'']"

text \<open>\<open>mentions s sub\<close>: \<open>sub\<close> occurs in \<open>s\<close> as a contiguous part.\<close>

fun starts_with :: "string \<Rightarrow> string \<Rightarrow> bool" where
  "starts_with s [] = True"
| "starts_with [] (c # cs) = False"
| "starts_with (x # xs) (c # cs) = (x = c \<and> starts_with xs cs)"

fun mentions :: "string \<Rightarrow> string \<Rightarrow> bool" where
  "mentions [] sub = (sub = [])"
| "mentions (x # xs) sub = (starts_with (x # xs) sub \<or> mentions xs sub)"

text \<open>A diff of twelve lines.\<close>

definition twelve_lines :: string where
  "twelve_lines = ''a\<newline>b\<newline>c\<newline>d\<newline>e\<newline>f\<newline>g\<newline>h\<newline>i\<newline>j\<newline>k\<newline>l\<newline>''"

text \<open>A sample template directory that holds every file of the catalog, and the catalog
  it loads.\<close>

definition sample_dir :: template_dir where
  "sample_dir fname = (if fname \<in> set (map fst DEFAULT_TEMPLATES) then Some (''# '' @ fname) else None)"

definition sample_templates :: "template list" where
  "sample_templates =
     map (\<lambda>(fname, ttype). \<lparr>filename = fname, template_type = ttype, content = ''# '' @ fname\<rparr>)
       DEFAULT_TEMPLATES"

text \<open>Every file name the lookup of a change type can give.\<close>

definition resolved_files :: "string list" where
  "resolved_files = ''feature.md'' # map snd TYPE_MAPPING"

section \<open>Aggregation of workflow events: properties\<close>

lemma created_status_of: "st_created_at (status_of ev) = event_created ev"
  by (simp add: status_of_def event_created_def)

lemma process_event_skip: "\<not> accepted wn ev \<Longrightarrow> process_event wn d ev = d"
  by (auto simp: process_event_def accepted_def valid_run_def name_matches_def Let_def)

lemma process_event_accepted:
  "accepted wn ev \<Longrightarrow> process_event wn d ev =
     (if map_of d (event_id ev) = None
         \<or> st_created_at (the (map_of d (event_id ev))) < event_created ev
      then dict_set d (event_id ev) (status_of ev) else d)"
  by (auto simp: process_event_def accepted_def valid_run_def name_matches_def Let_def
      event_id_def event_created_def status_of_def)

lemma map_of_dict_set: "map_of (dict_set d k v) = (map_of d)(k \<mapsto> v)"
  by (induction d k v rule: dict_set.induct) auto

lemma keys_dict_set: "fst ` set (dict_set d k v) = insert k (fst ` set d)"
  by (induction d k v rule: dict_set.induct) auto

lemma distinct_dict_set: "distinct (map fst d) \<Longrightarrow> distinct (map fst (dict_set d k v))"
  by (induction d k v rule: dict_set.induct) (auto simp: keys_dict_set)

lemma workflow_statuses_snoc:
  "workflow_statuses wn (evs @ [ev]) = process_event wn (workflow_statuses wn evs) ev"
  by (simp add: workflow_statuses_def)

lemma distinct_workflow_statuses: "distinct (map fst (workflow_statuses wn evs))"
proof (induction evs rule: rev_induct)
  case Nil
  show ?case by (simp add: workflow_statuses_def)
next
  case (snoc ev evs)
  show ?case
  proof (cases "accepted wn ev")
    case True
    then show ?thesis using snoc
      by (simp add: workflow_statuses_snoc process_event_accepted distinct_dict_set)
  next
    case False
    then show ?thesis using snoc by (simp add: workflow_statuses_snoc process_event_skip)
  qed
qed

lemma present_workflow_statuses:
  "(map_of (workflow_statuses wn evs) k = None) \<longleftrightarrow>
     \<not> (\<exists>ev\<in>set evs. accepted wn ev \<and> event_id ev = k)"
proof (induction evs rule: rev_induct)
  case Nil
  show ?case by (simp add: workflow_statuses_def)
next
  case (snoc ev evs)
  show ?case
  proof (cases "accepted wn ev")
    case True
    then show ?thesis using snoc
      by (auto simp: workflow_statuses_snoc process_event_accepted map_of_dict_set)
  next
    case False
    then show ?thesis using snoc by (auto simp: workflow_statuses_snoc process_event_skip)
  qed
qed

lemma latest_first_snoc_other:
  assumes "latest_first wn k evs ev" and "\<not> (accepted wn x \<and> event_id x = k \<and> event_created ev < event_created x)"
  shows "latest_first wn k (evs @ [x]) ev"
proof -
  from assms(1) obtain pre post where h: "evs = pre @ ev # post" "accepted wn ev" "event_id ev = k"
     "\<forall>e\<in>set pre. accepted wn e \<and> event_id e = k \<longrightarrow> event_created e < event_created ev"
     "\<forall>e\<in>set post. accepted wn e \<and> event_id e = k \<longrightarrow> event_created e \<le> event_created ev"
    unfolding latest_first_def by blast
  have "evs @ [x] = pre @ ev # (post @ [x])" using h(1) by simp
  moreover have "\<forall>e\<in>set (post @ [x]). accepted wn e \<and> event_id e = k \<longrightarrow> event_created e \<le> event_created ev"
    using h(5) assms(2) by auto
  ultimately show ?thesis unfolding latest_first_def using h(2,3,4) by blast
qed

lemma latest_first_bound:
  assumes "latest_first wn k evs ev" "e \<in> set evs" "accepted wn e" "event_id e = k"
  shows "event_created e \<le> event_created ev"
  using assms unfolding latest_first_def by (auto simp: less_imp_le)

lemma latest_first_new:
  assumes "accepted wn x" "event_id x = k"
    and "\<forall>e\<in>set evs. accepted wn e \<and> event_id e = k \<longrightarrow> event_created e < event_created x"
  shows "latest_first wn k (evs @ [x]) x"
  unfolding latest_first_def using assms
  by (intro exI[of _ evs] exI[of _ "[]"]) simp

lemma stored_latest_first:
  "map_of (workflow_statuses wn evs) k = Some s \<Longrightarrow>
     \<exists>ev. latest_first wn k evs ev \<and> s = status_of ev"
proof (induction evs arbitrary: s rule: rev_induct)
  case Nil
  then show ?case by (simp add: workflow_statuses_def)
next
  case (snoc x evs)
  let ?d = "workflow_statuses wn evs"
  show ?case
  proof (cases "accepted wn x \<and> event_id x = k")
    case False
    then have "map_of (workflow_statuses wn (evs @ [x])) k = map_of ?d k"
      by (cases "accepted wn x")
         (auto simp: workflow_statuses_snoc process_event_accepted process_event_skip map_of_dict_set)
    with snoc obtain ev where "latest_first wn k evs ev" "s = status_of ev" by auto
    with False show ?thesis using latest_first_snoc_other by blast
  next
    case True
    show ?thesis
    proof (cases "map_of ?d k")
      case None
      then have none: "\<forall>e\<in>set evs. \<not> (accepted wn e \<and> event_id e = k)"
        using present_workflow_statuses[of wn evs k] by blast
      have "s = status_of x" using snoc.prems True None
        by (simp add: workflow_statuses_snoc process_event_accepted map_of_dict_set)
      moreover have "latest_first wn k (evs @ [x]) x"
        using True none by (intro latest_first_new) auto
      ultimately show ?thesis by blast
    next
      case (Some old)
      then obtain ev where ev: "latest_first wn k evs ev" "old = status_of ev"
        using snoc.IH by blast
      show ?thesis
      proof (cases "st_created_at old < event_created x")
        case True
        have "s = status_of x" using snoc.prems \<open>accepted wn x \<and> event_id x = k\<close> Some True
          by (simp add: workflow_statuses_snoc process_event_accepted map_of_dict_set)
        moreover have "\<forall>e\<in>set evs. accepted wn e \<and> event_id e = k \<longrightarrow> event_created e < event_created x"
        proof (intro ballI impI)
          fix e assume "e \<in> set evs" "accepted wn e \<and> event_id e = k"
          then have "event_created e \<le> event_created ev"
            using latest_first_bound[OF ev(1)] by blast
          moreover have "event_created ev < event_created x"
            using True ev(2) by (simp add: created_status_of)
          ultimately show "event_created e < event_created x" by (rule le_less_trans)
        qed
        then have "latest_first wn k (evs @ [x]) x"
          using \<open>accepted wn x \<and> event_id x = k\<close> by (intro latest_first_new) auto
        ultimately show ?thesis by blast
      next
        case False
        have "s = old" using snoc.prems \<open>accepted wn x \<and> event_id x = k\<close> Some False
          by (simp add: workflow_statuses_snoc process_event_accepted)
        moreover have "latest_first wn k (evs @ [x]) ev"
          using ev False by (intro latest_first_snoc_other) (auto simp: created_status_of)
        ultimately show ?thesis using ev(2) by blast
      qed
    qed
  qed
qed

lemma mset_sort_desc: "mset (sort_desc xs) = mset xs"
  by (simp add: sort_desc_def)

lemma sort_desc_single: "sort_desc [x] = [x]"
  by (simp add: sort_desc_def)

lemma stored_latest:
  assumes "(k, s) \<in> set (workflow_statuses wn evs)"
  shows "\<exists>ev\<in>set evs. accepted wn ev \<and> event_id ev = k \<and> s = status_of ev
           \<and> (\<forall>e\<in>set evs. accepted wn e \<and> event_id e = k \<longrightarrow> event_created e \<le> event_created ev)"
proof -
  have "map_of (workflow_statuses wn evs) k = Some s"
    using assms distinct_workflow_statuses by simp
  then obtain ev where ev: "latest_first wn k evs ev" "s = status_of ev"
    using stored_latest_first by blast
  then have "ev \<in> set evs" "accepted wn ev" "event_id ev = k"
    unfolding latest_first_def by auto
  then show ?thesis using ev latest_first_bound[OF ev(1)] by blast
qed

lemma keys_workflow_statuses:
  "k \<in> fst ` set (workflow_statuses wn evs) \<longleftrightarrow> (\<exists>ev\<in>set evs. accepted wn ev \<and> event_id ev = k)"
proof -
  have "k \<in> fst ` set (workflow_statuses wn evs)
          \<longleftrightarrow> map_of (workflow_statuses wn evs) k \<noteq> None"
    by (simp add: map_of_eq_None_iff)
  also have "\<dots> \<longleftrightarrow> (\<exists>ev\<in>set evs. accepted wn ev \<and> event_id ev = k)"
    by (simp only: present_workflow_statuses not_not)
  finally show ?thesis .
qed

lemma two_events_later_wins:
  assumes "accepted wn e1" "accepted wn e2" "event_id e1 = event_id e2"
    "event_created e1 < event_created e2"
  shows "workflow_statuses wn [e1, e2] = [(event_id e2, status_of e2)]"
    and "workflow_statuses wn [e2, e1] = [(event_id e2, status_of e2)]"
  using assms
  by (simp_all add: workflow_statuses_def process_event_accepted created_status_of)

lemma two_events_tie:
  assumes "accepted wn e1" "accepted wn e2" "event_id e1 = event_id e2"
    "event_created e1 = event_created e2"
  shows "workflow_statuses wn [e1, e2] = [(event_id e1, status_of e1)]"
  using assms
  by (simp add: workflow_statuses_def process_event_accepted created_status_of)

lemma get_workflow_status_feed:
  "evs \<noteq> [] \<Longrightarrow> get_workflow_status (Feed evs) wn
     = Statuses (sort_desc (map snd (workflow_statuses wn evs)))"
  by (simp add: get_workflow_status_def)

text \<open>Claim C1. The dictionary has one entry per workflow id, for exactly the ids of
  the accepted events; each entry is the entry of an accepted event of that id whose
  timestamp is greatest among the accepted events of that id; the result of
  \<open>get_workflow_status\<close> on a feed that is not empty lists the values of the dictionary;
  and two accepted events of one id with different timestamps give, in either order, the
  single entry of the later one.\<close>

theorem dedup_latest:
  "distinct (map fst (workflow_statuses wn evs))
   \<and> (\<forall>k. k \<in> fst ` set (workflow_statuses wn evs)
          \<longleftrightarrow> (\<exists>ev\<in>set evs. accepted wn ev \<and> event_id ev = k))
   \<and> (\<forall>k s. (k, s) \<in> set (workflow_statuses wn evs) \<longrightarrow>
         (\<exists>ev\<in>set evs. accepted wn ev \<and> event_id ev = k \<and> s = status_of ev
            \<and> (\<forall>e\<in>set evs. accepted wn e \<and> event_id e = k
                  \<longrightarrow> event_created e \<le> event_created ev)))
   \<and> (evs \<noteq> [] \<longrightarrow> (\<exists>out. get_workflow_status (Feed evs) wn = Statuses out
          \<and> mset out = mset (map snd (workflow_statuses wn evs))))
   \<and> (accepted wn e1 \<and> accepted wn e2 \<and> event_id e1 = event_id e2
        \<and> event_created e1 < event_created e2 \<longrightarrow>
          get_workflow_status (Feed [e1, e2]) wn = Statuses [status_of e2]
        \<and> get_workflow_status (Feed [e2, e1]) wn = Statuses [status_of e2])"
proof (intro conjI allI impI)
  show "distinct (map fst (workflow_statuses wn evs))" by (rule distinct_workflow_statuses)
next
  fix k show "k \<in> fst ` set (workflow_statuses wn evs)
          \<longleftrightarrow> (\<exists>ev\<in>set evs. accepted wn ev \<and> event_id ev = k)"
    by (rule keys_workflow_statuses)
next
  fix k s assume "(k, s) \<in> set (workflow_statuses wn evs)"
  then show "\<exists>ev\<in>set evs. accepted wn ev \<and> event_id ev = k \<and> s = status_of ev
            \<and> (\<forall>e\<in>set evs. accepted wn e \<and> event_id e = k
                  \<longrightarrow> event_created e \<le> event_created ev)"
    by (rule stored_latest)
next
  assume "evs \<noteq> []"
  then show "\<exists>out. get_workflow_status (Feed evs) wn = Statuses out
          \<and> mset out = mset (map snd (workflow_statuses wn evs))"
    by (simp add: get_workflow_status_feed mset_sort_desc)
next
  assume h: "accepted wn e1 \<and> accepted wn e2 \<and> event_id e1 = event_id e2
        \<and> event_created e1 < event_created e2"
  then show "get_workflow_status (Feed [e1, e2]) wn = Statuses [status_of e2]"
    by (simp add: get_workflow_status_feed two_events_later_wins sort_desc_single)
  from h show "get_workflow_status (Feed [e2, e1]) wn = Statuses [status_of e2]"
    by (simp add: get_workflow_status_feed two_events_later_wins sort_desc_single)
qed

lemma ci_run_simps:
  "accepted None (ci_run (c # cs) concl)"
  "event_id (ci_run cr concl) = IntId 1"
  "event_created (ci_run cr concl) = cr"
  "status_of (ci_run cr concl) = \<lparr>st_name = ''CI'', st_status = Some ''completed'',
     st_conclusion = Some concl, st_url = None, st_created_at = cr\<rparr>"
  by (simp_all add: ci_run_def accepted_def valid_run_def name_matches_def run_of_def
      event_id_def event_created_def status_of_def)

theorem dedup_latest_witness:
  "accepted None (ci_run ''2024-01-01T00:00:00Z'' ''failure'')
   \<and> accepted None (ci_run ''2024-01-02T00:00:00Z'' ''success'')
   \<and> event_id (ci_run ''2024-01-01T00:00:00Z'' ''failure'')
       = event_id (ci_run ''2024-01-02T00:00:00Z'' ''success'')
   \<and> event_created (ci_run ''2024-01-01T00:00:00Z'' ''failure'')
       < event_created (ci_run ''2024-01-02T00:00:00Z'' ''success'')
   \<and> get_workflow_status
     (Feed [ci_run ''2024-01-01T00:00:00Z'' ''failure'', ci_run ''2024-01-02T00:00:00Z'' ''success''])
     None
   = Statuses [\<lparr>st_name = ''CI'', st_status = Some ''completed'',
       st_conclusion = Some ''success'', st_url = None, st_created_at = ''2024-01-02T00:00:00Z''\<rparr>]"
  using dedup_latest [of None "[]" "ci_run ''2024-01-01T00:00:00Z'' ''failure''"
      "ci_run ''2024-01-02T00:00:00Z'' ''success''"]
  by (simp add: ci_run_simps)

lemma process_event_same_name:
  "f \<noteq> [] \<Longrightarrow> same_name f ev \<Longrightarrow> process_event (Some f) d ev = process_event None d ev"
  by (auto simp: process_event_def same_name_def Let_def split: option.splits)

lemma process_event_other_name:
  "f \<noteq> [] \<Longrightarrow> \<not> same_name f ev \<Longrightarrow> process_event (Some f) d ev = d"
  by (cases "name (run_of ev)") (auto simp: process_event_def same_name_def Let_def)

lemma foldl_process_event_filter:
  "f \<noteq> [] \<Longrightarrow> foldl (process_event (Some f)) d evs
     = foldl (process_event None) d (filter (same_name f) evs)"
  by (induction evs arbitrary: d) (simp_all add: process_event_same_name process_event_other_name)

text \<open>Claim C6. With a filter that is not empty, an event whose name equals the filter
  up to case is treated as without filter, any other event leaves the dictionary as it
  is, and the whole aggregation is the unfiltered aggregation of the events whose name
  equals the filter up to case.\<close>

theorem name_filter:
  "f \<noteq> [] \<longrightarrow>
     (same_name f ev \<longrightarrow> process_event (Some f) d ev = process_event None d ev)
   \<and> (\<not> same_name f ev \<longrightarrow> process_event (Some f) d ev = d)
   \<and> workflow_statuses (Some f) evs = workflow_statuses None (filter (same_name f) evs)
   \<and> status_entries (get_workflow_status (Feed evs) (Some f))
       = status_entries (get_workflow_status (Feed (filter (same_name f) evs)) None)"
proof (intro impI conjI)
  assume f: "f \<noteq> []"
  show ws: "workflow_statuses (Some f) evs = workflow_statuses None (filter (same_name f) evs)"
    using f by (simp add: workflow_statuses_def foldl_process_event_filter)
  show "status_entries (get_workflow_status (Feed evs) (Some f))
       = status_entries (get_workflow_status (Feed (filter (same_name f) evs)) None)"
  proof (cases "filter (same_name f) evs = []")
    case True
    then have "workflow_statuses (Some f) evs = []" using ws by (simp add: workflow_statuses_def)
    then show ?thesis using True
      by (simp add: get_workflow_status_def status_entries_def sort_desc_def)
  next
    case False
    then have "evs \<noteq> []" by auto
    then show ?thesis using False ws
      by (simp add: get_workflow_status_def status_entries_def)
  qed
qed (simp_all add: process_event_same_name process_event_other_name)

lemma lower_Deploy: "lower ''Deploy'' = ''deploy''" "lower ''deploy'' = ''deploy''" "lower ''Lint'' = ''lint''"
  by code_simp+

theorem name_filter_witness:
  "''deploy'' \<noteq> []
   \<and> same_name ''deploy'' (named_run 7 ''Deploy'' ''2024-03-01'' ''success'')
   \<and> \<not> same_name ''deploy'' (named_run 7 ''Lint'' ''2024-03-02'' ''failure'')
   \<and> get_workflow_status
        (Feed [named_run 7 ''Deploy'' ''2024-03-01'' ''success'',
               named_run 7 ''Lint'' ''2024-03-02'' ''failure'']) (Some ''deploy'')
      = Statuses [\<lparr>st_name = ''Deploy'', st_status = Some ''completed'',
          st_conclusion = Some ''success'', st_url = None, st_created_at = ''2024-03-01''\<rparr>]"
proof -
  let ?a = "named_run 7 ''Deploy'' ''2024-03-01'' ''success''"
  let ?b = "named_run 7 ''Lint'' ''2024-03-02'' ''failure''"
  have a: "same_name ''deploy'' ?a" and b: "\<not> same_name ''deploy'' ?b"
    by (simp_all add: same_name_def named_run_def run_of_def lower_Deploy)
  have "workflow_statuses (Some ''deploy'') [?a, ?b] = workflow_statuses None [?a]"
    using name_filter [of "''deploy''" ?a "[]" "[?a, ?b]"] a b by simp
  then have "get_workflow_status (Feed [?a, ?b]) (Some ''deploy'')
      = Statuses (sort_desc (map snd (workflow_statuses None [?a])))"
    by (simp add: get_workflow_status_def)
  also have "workflow_statuses None [?a] = [(IntId 7, status_of ?a)]"
    by (simp add: workflow_statuses_def process_event_def named_run_def run_of_def status_of_def)
  finally show ?thesis using a b
    by (simp add: sort_desc_single status_of_def named_run_def run_of_def)
qed

text \<open>Claim C9. An accepted event whose timestamp is not strictly greater than the
  stored one of its id leaves the dictionary as it is; of two accepted events with the
  same id and the same timestamp the first is kept; and in general the stored entry of
  an id is that of the first event among those with the greatest timestamp.\<close>

theorem tie_keeps_earlier:
  "(accepted wn ev \<and> map_of d (event_id ev) = Some old \<and> event_created ev \<le> st_created_at old
      \<longrightarrow> process_event wn d ev = d)
   \<and> (accepted wn e1 \<and> accepted wn e2 \<and> event_id e1 = event_id e2
        \<and> event_created e1 = event_created e2 \<longrightarrow>
          workflow_statuses wn [e1, e2] = [(event_id e1, status_of e1)]
        \<and> get_workflow_status (Feed [e1, e2]) wn = Statuses [status_of e1])
   \<and> (map_of (workflow_statuses wn evs) k = Some s \<longrightarrow>
        (\<exists>ev. latest_first wn k evs ev \<and> s = status_of ev))"
proof (intro conjI impI)
  assume "accepted wn ev \<and> map_of d (event_id ev) = Some old \<and> event_created ev \<le> st_created_at old"
  then show "process_event wn d ev = d"
    by (auto simp: process_event_accepted)
next
  assume h: "accepted wn e1 \<and> accepted wn e2 \<and> event_id e1 = event_id e2
        \<and> event_created e1 = event_created e2"
  then show ws: "workflow_statuses wn [e1, e2] = [(event_id e1, status_of e1)]"
    by (simp add: two_events_tie)
  then show "get_workflow_status (Feed [e1, e2]) wn = Statuses [status_of e1]"
    by (simp add: get_workflow_status_feed sort_desc_single)
next
  assume "map_of (workflow_statuses wn evs) k = Some s"
  then show "\<exists>ev. latest_first wn k evs ev \<and> s = status_of ev"
    by (rule stored_latest_first)
qed

theorem tie_keeps_earlier_witness:
  "accepted None (ci_run ''2024-01-01T00:00:00Z'' ''failure'')
   \<and> accepted None (ci_run ''2024-01-01T00:00:00Z'' ''success'')
   \<and> event_id (ci_run ''2024-01-01T00:00:00Z'' ''failure'')
       = event_id (ci_run ''2024-01-01T00:00:00Z'' ''success'')
   \<and> event_created (ci_run ''2024-01-01T00:00:00Z'' ''failure'')
       = event_created (ci_run ''2024-01-01T00:00:00Z'' ''success'')
   \<and> get_workflow_status
     (Feed [ci_run ''2024-01-01T00:00:00Z'' ''failure'', ci_run ''2024-01-01T00:00:00Z'' ''success''])
     None
   = Statuses [\<lparr>st_name = ''CI'', st_status = Some ''completed'',
       st_conclusion = Some ''failure'', st_url = None, st_created_at = ''2024-01-01T00:00:00Z''\<rparr>]"
  using tie_keeps_earlier [of None "ci_run ''2024-01-01T00:00:00Z'' ''failure''" "[]"
      "status_of (ci_run ''2024-01-01T00:00:00Z'' ''failure'')" "ci_run ''2024-01-01T00:00:00Z'' ''failure''"
      "ci_run ''2024-01-01T00:00:00Z'' ''success''" "[]"]
  by (simp add: ci_run_simps)

lemma latest_first_mem:
  "latest_first wn k evs ev \<Longrightarrow> ev \<in> set evs \<and> accepted wn ev \<and> event_id ev = k"
  unfolding latest_first_def by auto

lemma map_of_workflow_statuses_cong:
  assumes eq: "set evs = set evs'" and tie: "latest_ties_agree wn evs"
  shows "map_of (workflow_statuses wn evs) = map_of (workflow_statuses wn evs')"
proof (rule ext)
  fix k
  show "map_of (workflow_statuses wn evs) k = map_of (workflow_statuses wn evs') k"
  proof (cases "map_of (workflow_statuses wn evs) k")
    case None
    then have "map_of (workflow_statuses wn evs') k = None"
      using present_workflow_statuses[of wn evs k] present_workflow_statuses[of wn evs' k] eq
      by simp
    with None show ?thesis by simp
  next
    case (Some s)
    then have "map_of (workflow_statuses wn evs') k \<noteq> None"
      using present_workflow_statuses[of wn evs k] present_workflow_statuses[of wn evs' k] eq
      by simp
    then obtain s' where Some': "map_of (workflow_statuses wn evs') k = Some s'" by blast
    obtain ev where ev: "latest_first wn k evs ev" "s = status_of ev"
      using stored_latest_first[OF Some] by blast
    obtain ev' where ev': "latest_first wn k evs' ev'" "s' = status_of ev'"
      using stored_latest_first[OF Some'] by blast
    note m = latest_first_mem[OF ev(1)] and m' = latest_first_mem[OF ev'(1)]
    have "event_created ev' \<le> event_created ev"
      using latest_first_bound[OF ev(1), of ev'] m' eq by simp
    moreover have "event_created ev \<le> event_created ev'"
      using latest_first_bound[OF ev'(1), of ev] m eq by simp
    ultimately have "event_created ev = event_created ev'" by simp
    moreover have "ev' \<in> set evs" using m' eq by simp
    moreover have "\<forall>x\<in>set evs. accepted wn x \<and> event_id x = event_id ev
        \<longrightarrow> event_created x \<le> event_created ev"
      using latest_first_bound[OF ev(1)] m by simp
    ultimately have "status_of ev = status_of ev'"
      using tie [unfolded latest_ties_agree_def, rule_format, of ev ev'] m m' by simp
    then show ?thesis using Some Some' ev(2) ev'(2) by simp
  qed
qed

lemma mset_of_map_of_eq:
  assumes "distinct (map fst d)" "distinct (map fst d')" "map_of d = map_of d'"
  shows "mset d = mset d'"
proof -
  have "set d = set d'"
  proof (rule set_eqI)
    fix p :: "'a \<times> 'b"
    obtain k v where p: "p = (k, v)" by (cases p)
    have "p \<in> set d \<longleftrightarrow> map_of d k = Some v" using assms(1) p by simp
    also have "\<dots> \<longleftrightarrow> map_of d' k = Some v" using assms(3) by simp
    also have "\<dots> \<longleftrightarrow> p \<in> set d'" using assms(2) p by simp
    finally show "p \<in> set d \<longleftrightarrow> p \<in> set d'" .
  qed
  moreover have "distinct d" "distinct d'"
    using assms(1,2) by (simp_all add: distinct_map)
  ultimately show ?thesis by (simp add: set_eq_iff_mset_eq_distinct)
qed

lemma status_entries_feed:
  "mset (status_entries (get_workflow_status (Feed evs) wn))
     = mset (map snd (workflow_statuses wn evs))"
  by (cases "evs = []")
     (simp_all add: get_workflow_status_def status_entries_def mset_sort_desc workflow_statuses_def)

text \<open>Claim C4, amended. When, for every id, the accepted events that carry the
  greatest timestamp of that id give the same entry, two feeds that are permutations of
  each other give the same entries (as a multiset, hence as a set). Events that share an
  older timestamp may differ as they like.\<close>

theorem reordering_invariant:
  "mset evs = mset evs' \<and> latest_ties_agree wn evs \<longrightarrow>
     mset (status_entries (get_workflow_status (Feed evs) wn))
       = mset (status_entries (get_workflow_status (Feed evs') wn))
   \<and> set (status_entries (get_workflow_status (Feed evs) wn))
       = set (status_entries (get_workflow_status (Feed evs') wn))"
proof (intro impI)
  assume h: "mset evs = mset evs' \<and> latest_ties_agree wn evs"
  then have "set evs = set evs'" by (metis set_mset_mset)
  then have "map_of (workflow_statuses wn evs) = map_of (workflow_statuses wn evs')"
    using h by (intro map_of_workflow_statuses_cong) simp_all
  then have "mset (workflow_statuses wn evs) = mset (workflow_statuses wn evs')"
    by (intro mset_of_map_of_eq distinct_workflow_statuses)
  then have "mset (map snd (workflow_statuses wn evs)) = mset (map snd (workflow_statuses wn evs'))"
    by (metis mset_map)
  then have m: "mset (status_entries (get_workflow_status (Feed evs) wn))
       = mset (status_entries (get_workflow_status (Feed evs') wn))"
    by (simp add: status_entries_feed)
  then have "set (status_entries (get_workflow_status (Feed evs) wn))
       = set (status_entries (get_workflow_status (Feed evs') wn))"
    by (metis set_mset_mset)
  with m show "mset (status_entries (get_workflow_status (Feed evs) wn))
       = mset (status_entries (get_workflow_status (Feed evs') wn))
   \<and> set (status_entries (get_workflow_status (Feed evs) wn))
       = set (status_entries (get_workflow_status (Feed evs') wn))" by simp
qed

text \<open>The witness is a feed with two older runs that share a timestamp and differ, and
  one later run: in the order later, success, failure and in the order failure, success,
  later the only entry is that of the later run.\<close>

theorem reordering_invariant_witness:
  "mset [ci_run ''2024-01-02T00:00:00Z'' ''success'', ci_run ''2024-01-01T00:00:00Z'' ''success'',
         ci_run ''2024-01-01T00:00:00Z'' ''failure'']
     = mset [ci_run ''2024-01-01T00:00:00Z'' ''failure'', ci_run ''2024-01-01T00:00:00Z'' ''success'',
         ci_run ''2024-01-02T00:00:00Z'' ''success'']
   \<and> latest_ties_agree None
        [ci_run ''2024-01-02T00:00:00Z'' ''success'', ci_run ''2024-01-01T00:00:00Z'' ''success'',
         ci_run ''2024-01-01T00:00:00Z'' ''failure'']
   \<and> status_of (ci_run ''2024-01-01T00:00:00Z'' ''success'')
       \<noteq> status_of (ci_run ''2024-01-01T00:00:00Z'' ''failure'')
   \<and> status_entries (get_workflow_status
        (Feed [ci_run ''2024-01-02T00:00:00Z'' ''success'', ci_run ''2024-01-01T00:00:00Z'' ''success'',
               ci_run ''2024-01-01T00:00:00Z'' ''failure'']) None)
     = [\<lparr>st_name = ''CI'', st_status = Some ''completed'',
         st_conclusion = Some ''success'', st_url = None, st_created_at = ''2024-01-02T00:00:00Z''\<rparr>]
   \<and> set (status_entries (get_workflow_status
        (Feed [ci_run ''2024-01-01T00:00:00Z'' ''failure'', ci_run ''2024-01-01T00:00:00Z'' ''success'',
               ci_run ''2024-01-02T00:00:00Z'' ''success'']) None))
     = {\<lparr>st_name = ''CI'', st_status = Some ''completed'',
         st_conclusion = Some ''success'', st_url = None, st_created_at = ''2024-01-02T00:00:00Z''\<rparr>}"
proof -
  let ?a = "ci_run ''2024-01-01T00:00:00Z'' ''failure''"
  let ?b = "ci_run ''2024-01-01T00:00:00Z'' ''success''"
  let ?c = "ci_run ''2024-01-02T00:00:00Z'' ''success''"
  have perm: "mset [?c, ?b, ?a] = mset [?a, ?b, ?c]" by simp
  have ties: "latest_ties_agree None [?c, ?b, ?a]"
    by (simp add: latest_ties_agree_def ci_run_simps)
  have differ: "status_of ?b \<noteq> status_of ?a" by (simp add: ci_run_simps)
  have "workflow_statuses None [?c, ?b, ?a] = [(IntId 1, status_of ?c)]"
    by (simp add: workflow_statuses_def process_event_accepted ci_run_simps)
  then have first: "status_entries (get_workflow_status (Feed [?c, ?b, ?a]) None) = [status_of ?c]"
    by (simp add: get_workflow_status_feed status_entries_def sort_desc_single)
  from reordering_invariant [of "[?c, ?b, ?a]" "[?a, ?b, ?c]" None] perm ties
  have "set (status_entries (get_workflow_status (Feed [?c, ?b, ?a]) None))
       = set (status_entries (get_workflow_status (Feed [?a, ?b, ?c]) None))" by blast
  with first have second: "set (status_entries (get_workflow_status (Feed [?a, ?b, ?c]) None))
       = {status_of ?c}" by simp
  from perm ties differ first second show ?thesis by (simp add: ci_run_simps)
qed

text \<open>Claim C4 as stated fails: two runs of one workflow with the same timestamp and
  different conclusions give a different entry in each order.\<close>

theorem reordering_counterexample:
  "mset [ci_run ''2024-01-01T00:00:00Z'' ''failure'', ci_run ''2024-01-01T00:00:00Z'' ''success'']
     = mset [ci_run ''2024-01-01T00:00:00Z'' ''success'', ci_run ''2024-01-01T00:00:00Z'' ''failure'']
   \<and> set (status_entries (get_workflow_status
        (Feed [ci_run ''2024-01-01T00:00:00Z'' ''failure'', ci_run ''2024-01-01T00:00:00Z'' ''success''])
        None))
     \<noteq> set (status_entries (get_workflow_status
        (Feed [ci_run ''2024-01-01T00:00:00Z'' ''success'', ci_run ''2024-01-01T00:00:00Z'' ''failure''])
        None))"
proof -
  let ?a = "ci_run ''2024-01-01T00:00:00Z'' ''failure''"
  let ?b = "ci_run ''2024-01-01T00:00:00Z'' ''success''"
  have ab: "status_entries (get_workflow_status (Feed [?a, ?b]) None) = [status_of ?a]"
    by (simp add: get_workflow_status_feed status_entries_def sort_desc_single
        two_events_tie [of None ?a ?b] ci_run_simps)
  have ba: "status_entries (get_workflow_status (Feed [?b, ?a]) None) = [status_of ?b]"
    by (simp add: get_workflow_status_feed status_entries_def sort_desc_single
        two_events_tie [of None ?b ?a] ci_run_simps)
  show ?thesis unfolding ab ba by (simp add: ci_run_simps)
qed

section \<open>Change collection: properties\<close>

lemma linebreak_LF: "is_linebreak (CHR 0x0A)" "codepoint (CHR 0x0A) = 10"
  by (simp_all add: is_linebreak_def codepoint_def)

lemma not_break_not_CR: "\<not> is_linebreak c \<Longrightarrow> codepoint c \<noteq> 13"
  by (auto simp: is_linebreak_def)

lemma split_acc_line:
  "\<forall>c\<in>set l. \<not> is_linebreak c \<Longrightarrow>
     split_acc acc (l @ CHR 0x0A # rest) = (acc @ l) # split_acc [] rest"
  by (induction l arbitrary: acc) (simp_all add: linebreak_LF not_break_not_CR)

lemma split_acc_join:
  "ls \<noteq> [] \<Longrightarrow> \<forall>l\<in>set ls. \<forall>c\<in>set l. \<not> is_linebreak c \<Longrightarrow>
     split_acc [] (join [CHR 0x0A] ls @ CHR 0x0A # rest) = ls @ split_acc [] rest"
proof (induction ls)
  case Nil
  then show ?case by simp
next
  case (Cons x xs)
  then have x: "\<forall>c\<in>set x. \<not> is_linebreak c" by simp
  show ?case
  proof (cases xs)
    case Nil
    then show ?thesis using split_acc_line[OF x, of "[]" rest] by simp
  next
    case (Cons y ys)
    have "split_acc [] (join [CHR 0x0A] (x # xs) @ CHR 0x0A # rest)
        = split_acc [] (x @ CHR 0x0A # (join [CHR 0x0A] xs @ CHR 0x0A # rest))"
      using Cons by simp
    also have "\<dots> = x # split_acc [] (join [CHR 0x0A] xs @ CHR 0x0A # rest)"
      using split_acc_line[OF x, of "[]"] by simp
    also have "\<dots> = x # xs @ split_acc [] rest"
      using Cons.IH Cons.prems Cons by simp
    finally show ?thesis by simp
  qed
qed

lemma split_acc_no_breaks:
  "\<forall>c\<in>set acc. \<not> is_linebreak c \<Longrightarrow> l \<in> set (split_acc acc s) \<Longrightarrow> c \<in> set l
     \<Longrightarrow> \<not> is_linebreak c"
proof (induction acc s rule: split_acc.induct)
  case (1 line)
  then show ?case by (cases "line = []") simp_all
next
  case (2 line x cs)
  show ?case
  proof (cases "codepoint x = 13")
    case True
    show ?thesis
    proof (cases cs)
      case Nil
      then show ?thesis using True "2.prems" by simp
    next
      case (Cons d ds)
      show ?thesis
      proof (cases "codepoint d = 10")
        case d: True
        then have "l = line \<or> l \<in> set (split_acc [] ds)"
          using True Cons "2.prems"(2) by simp
        then show ?thesis using "2.IH"(1)[OF True Cons d] "2.prems"(1,3) by auto
      next
        case d: False
        then have "l = line \<or> l \<in> set (split_acc [] cs)"
          using True Cons "2.prems"(2) by simp
        then show ?thesis using "2.IH"(2)[OF True Cons d] "2.prems"(1,3) by auto
      qed
    qed
  next
    case False
    show ?thesis
    proof (cases "is_linebreak x")
      case b: True
      then have "l = line \<or> l \<in> set (split_acc [] cs)"
        using False "2.prems"(2) by simp
      then show ?thesis using "2.IH"(3)[OF False b] "2.prems"(1,3) by auto
    next
      case b: False
      then have "l \<in> set (split_acc (line @ [x]) cs)"
        using False "2.prems"(2) by simp
      moreover have "\<forall>c\<in>set (line @ [x]). \<not> is_linebreak c"
        using b "2.prems"(1) by simp
      ultimately show ?thesis using "2.IH"(4)[OF False b] "2.prems"(3) by blast
    qed
  qed
qed

lemma splitlines_no_breaks: "l \<in> set (splitlines s) \<Longrightarrow> c \<in> set l \<Longrightarrow> \<not> is_linebreak c"
  using split_acc_no_breaks[of "[]" l s c] by (simp add: splitlines_def)

lemma trailer_lines: "split_acc [] (tl truncation_trailer) = trailer_block"
  by code_simp

lemma trailer_head: "truncation_trailer = CHR 0x0A # tl truncation_trailer"
  by code_simp

lemma slice_to_nonneg: "0 \<le> n \<Longrightarrow> slice_to xs n = take (nat n) xs"
  by (simp add: slice_to_def Let_def min_def)

lemma bounded_diff_nonneg:
  "0 \<le> L \<Longrightarrow> bounded_diff out L =
     (if L < int (length (splitlines out))
      then (join [CHR 0x0A] (take (nat L) (splitlines out)) @ truncation_trailer, True,
            int (length (splitlines out)))
      else (out, False, int (length (splitlines out))))"
  by (simp add: bounded_diff_def Let_def slice_to_nonneg)

lemma splitlines_truncated:
  assumes "0 \<le> L" "L < int (length (splitlines out))"
  shows "splitlines (join [CHR 0x0A] (take (nat L) (splitlines out)) @ truncation_trailer)
     = take (nat L) (splitlines out) @ (if L = 0 then [] # trailer_block else trailer_block)"
proof (cases "L = 0")
  case True
  have "split_acc [] (CHR 0x0A # tl truncation_trailer) = [] # trailer_block"
    by (simp add: linebreak_LF trailer_lines)
  then show ?thesis using True trailer_head by (simp add: splitlines_def)
next
  case False
  let ?ls = "take (nat L) (splitlines out)"
  have ne: "?ls \<noteq> []" using assms False by auto
  have nb: "\<forall>l\<in>set ?ls. \<forall>c\<in>set l. \<not> is_linebreak c"
    using splitlines_no_breaks[of _ out] by (meson in_set_takeD)
  have "join [CHR 0x0A] ?ls @ truncation_trailer
      = join [CHR 0x0A] ?ls @ CHR 0x0A # tl truncation_trailer"
    using trailer_head by simp
  then have "splitlines (join [CHR 0x0A] ?ls @ truncation_trailer)
      = ?ls @ split_acc [] (tl truncation_trailer)"
    using split_acc_join[OF ne nb, of "tl truncation_trailer"] by (simp add: splitlines_def)
  then show ?thesis using False by (simp add: trailer_lines)
qed

lemma get_git_changes_diff_fields:
  assumes "get_git_changes git wd base True L = Inr cs"
    and "git [''git'', ''diff'', base @ ''...HEAD''] wd = Completed rc out err"
  shows "bounded_diff out L = (diff cs, truncated cs, diff_line_count cs)"
  using assms unfolding get_git_changes_def run_def
  by (auto split: proc_result.splits if_splits prod.splits)

lemma get_git_changes_with_diff:
  assumes "git [''git'', ''diff'', ''--name-status'', base @ ''...HEAD''] wd = Completed 0 ns_out ns_err"
    and "git [''git'', ''diff'', ''--stat'', base @ ''...HEAD''] wd = Completed st_rc st_out st_err"
    and "git [''git'', ''diff'', base @ ''...HEAD''] wd = Completed 0 out err"
    and "git [''git'', ''log'', ''--oneline'', base @ ''..HEAD''] wd = Completed log_rc log_out log_err"
  shows "get_git_changes git wd base True L =
     Inr \<lparr>changed_files = changed_files_of ns_out, statistics = st_out,
          diff = fst (bounded_diff out L), truncated = fst (snd (bounded_diff out L)),
          diff_line_count = snd (snd (bounded_diff out L)), commits = Some log_out\<rparr>"
  using assms unfolding get_git_changes_def run_def
  by (simp split: prod.splits)

lemma get_git_changes_without_diff:
  "get_git_changes git wd base False L =
     (case git [''git'', ''diff'', ''--name-status'', base @ ''...HEAD''] wd of
        Raised msg \<Rightarrow> Inl (''Failed to get changed files or stats: '' @ msg)
      | Completed rc ns_out ns_err \<Rightarrow>
          if rc \<noteq> 0 then Inl (''Git error: '' @ ns_err)
          else (case git [''git'', ''diff'', ''--stat'', base @ ''...HEAD''] wd of
                  Raised msg \<Rightarrow> Inl (''Failed to get changed files or stats: '' @ msg)
                | Completed st_rc st_out st_err \<Rightarrow>
                    Inr \<lparr>changed_files = changed_files_of ns_out, statistics = st_out,
                         diff = diff_placeholder, truncated = False, diff_line_count = 0,
                         commits = None\<rparr>))"
  unfolding get_git_changes_def run_def
  by (simp split: proc_result.splits)

lemma get_git_changes_first_stage:
  assumes "get_git_changes git wd base inc L = Inr cs"
  shows "\<exists>ns_out ns_err st_rc st_out st_err.
     git [''git'', ''diff'', ''--name-status'', base @ ''...HEAD''] wd = Completed 0 ns_out ns_err
     \<and> git [''git'', ''diff'', ''--stat'', base @ ''...HEAD''] wd = Completed st_rc st_out st_err
     \<and> changed_files cs = changed_files_of ns_out \<and> statistics cs = st_out"
  using assms unfolding get_git_changes_def run_def
  by (auto split: proc_result.splits if_splits prod.splits)

lemma sample_git_simps:
  "sample_git d [''git'', ''diff'', ''--name-status'', ''main'' @ ''...HEAD''] wd
     = Completed 0 sample_listing []"
  "sample_git d [''git'', ''diff'', ''--stat'', ''main'' @ ''...HEAD''] wd
     = Completed 0 '' server.py | 2 +-'' []"
  "sample_git d [''git'', ''diff'', ''main'' @ ''...HEAD''] wd = Completed 0 d []"
  "sample_git d [''git'', ''log'', ''--oneline'', ''main'' @ ''..HEAD''] wd
     = Completed 0 ''abc1234 Fix server'' []"
  by (simp_all add: sample_git_def)

text \<open>Claim C2, amended. For a line cap \<open>L\<close> that is not negative and a diff of
  \<open>N\<close> lines, the count reported is \<open>N\<close>; when \<open>N \<le> L\<close> the diff is returned whole
  and not marked truncated; when \<open>N > L\<close> it is marked truncated and is the first \<open>L\<close>
  lines joined by line feeds, followed by the trailer, whose text is an empty line and
  two lines: the text has \<open>L + 3\<close> lines (4 when \<open>L = 0\<close>), not \<open>L + 1\<close>.\<close>

theorem diff_truncation:
  "get_git_changes git wd base True L = Inr cs
   \<and> git [''git'', ''diff'', base @ ''...HEAD''] wd = Completed rc out err
   \<and> 0 \<le> L \<longrightarrow>
     diff_line_count cs = int (length (splitlines out))
   \<and> (int (length (splitlines out)) \<le> L \<longrightarrow>
         \<not> truncated cs \<and> diff cs = out \<and> splitlines (diff cs) = splitlines out)
   \<and> (L < int (length (splitlines out)) \<longrightarrow>
         truncated cs
       \<and> diff cs = join [CHR 0x0A] (take (nat L) (splitlines out)) @ truncation_trailer
       \<and> splitlines (diff cs)
           = take (nat L) (splitlines out) @ (if L = 0 then [] # trailer_block else trailer_block))"
proof (intro impI)
  assume h: "get_git_changes git wd base True L = Inr cs
   \<and> git [''git'', ''diff'', base @ ''...HEAD''] wd = Completed rc out err \<and> 0 \<le> L"
  then have b: "bounded_diff out L = (diff cs, truncated cs, diff_line_count cs)"
    using get_git_changes_diff_fields by blast
  have L: "0 \<le> L" using h by simp
  show "diff_line_count cs = int (length (splitlines out))
   \<and> (int (length (splitlines out)) \<le> L \<longrightarrow>
         \<not> truncated cs \<and> diff cs = out \<and> splitlines (diff cs) = splitlines out)
   \<and> (L < int (length (splitlines out)) \<longrightarrow>
         truncated cs
       \<and> diff cs = join [CHR 0x0A] (take (nat L) (splitlines out)) @ truncation_trailer
       \<and> splitlines (diff cs)
           = take (nat L) (splitlines out) @ (if L = 0 then [] # trailer_block else trailer_block))"
  proof (cases "L < int (length (splitlines out))")
    case True
    have "bounded_diff out L
        = (join [CHR 0x0A] (take (nat L) (splitlines out)) @ truncation_trailer, True,
           int (length (splitlines out)))"
      using bounded_diff_nonneg[OF L, of out] True by simp
    with b [symmetric] have "(diff cs, truncated cs, diff_line_count cs)
        = (join [CHR 0x0A] (take (nat L) (splitlines out)) @ truncation_trailer, True,
           int (length (splitlines out)))" by (rule trans)
    then have f: "diff cs = join [CHR 0x0A] (take (nat L) (splitlines out)) @ truncation_trailer"
      "truncated cs" "diff_line_count cs = int (length (splitlines out))"
      by simp_all
    have "splitlines (diff cs)
        = take (nat L) (splitlines out) @ (if L = 0 then [] # trailer_block else trailer_block)"
      unfolding f(1) by (rule splitlines_truncated[OF L True])
    with f True show ?thesis by simp
  next
    case False
    have "bounded_diff out L = (out, False, int (length (splitlines out)))"
      using bounded_diff_nonneg[OF L, of out] False by simp
    with b [symmetric] have "(diff cs, truncated cs, diff_line_count cs)
        = (out, False, int (length (splitlines out)))" by (rule trans)
    then have f: "diff cs = out" "\<not> truncated cs"
      "diff_line_count cs = int (length (splitlines out))"
      by simp_all
    have "splitlines (diff cs) = splitlines out" unfolding f(1) ..
    with f False show ?thesis by simp
  qed
qed

lemma sample_lines: "splitlines ''a\<newline>b\<newline>c\<newline>'' = [''a'', ''b'', ''c'']"
  by code_simp

lemma sample_run:
  "get_git_changes (sample_git out) ''.'' ''main'' True L =
     Inr \<lparr>changed_files = changed_files_of sample_listing,
          statistics = '' server.py | 2 +-'',
          diff = fst (bounded_diff out L), truncated = fst (snd (bounded_diff out L)),
          diff_line_count = snd (snd (bounded_diff out L)),
          commits = Some ''abc1234 Fix server''\<rparr>"
  by (rule get_git_changes_with_diff) (rule sample_git_simps)+

theorem diff_truncation_witness:
  "\<not> isl (get_git_changes (sample_git ''a\<newline>b\<newline>c\<newline>'') ''.'' ''main'' True 2)
   \<and> sample_git ''a\<newline>b\<newline>c\<newline>'' [''git'', ''diff'', ''main'' @ ''...HEAD''] ''.''
       = Completed 0 ''a\<newline>b\<newline>c\<newline>'' []
   \<and> (0::int) \<le> 2
   \<and> diff_line_count (projr (get_git_changes (sample_git ''a\<newline>b\<newline>c\<newline>'') ''.'' ''main'' True 2)) = 3
   \<and> truncated (projr (get_git_changes (sample_git ''a\<newline>b\<newline>c\<newline>'') ''.'' ''main'' True 2))
   \<and> splitlines (diff (projr (get_git_changes (sample_git ''a\<newline>b\<newline>c\<newline>'') ''.'' ''main'' True 2)))
       = [''a'', ''b''] @ trailer_block"
proof -
  let ?out = "''a\<newline>b\<newline>c\<newline>''"
  let ?r = "get_git_changes (sample_git ?out) ''.'' ''main'' True 2"
  have r: "?r = Inr (projr ?r)" and i: "\<not> isl ?r" by (simp_all add: sample_run)
  have d: "sample_git ?out [''git'', ''diff'', ''main'' @ ''...HEAD''] ''.'' = Completed 0 ?out []"
    by (rule sample_git_simps)
  have n: "(2::int) < int (length (splitlines ?out))" by (simp add: sample_lines)
  have "?r = Inr (projr ?r) \<and> sample_git ?out [''git'', ''diff'', ''main'' @ ''...HEAD''] ''.''
      = Completed 0 ?out [] \<and> (0::int) \<le> 2"
    using r d by simp
  with diff_truncation [of "sample_git ?out" "''.''" "''main''" 2 "projr ?r" 0 ?out "[]"]
  have c: "diff_line_count (projr ?r) = int (length (splitlines ?out))"
    and "2 < int (length (splitlines ?out)) \<longrightarrow>
         truncated (projr ?r)
       \<and> diff (projr ?r) = join [CHR 0x0A] (take (nat 2) (splitlines ?out)) @ truncation_trailer
       \<and> splitlines (diff (projr ?r))
           = take (nat 2) (splitlines ?out) @ (if (2::int) = 0 then [] # trailer_block else trailer_block)"
    by blast+
  with n have t: "truncated (projr ?r)"
    and s: "splitlines (diff (projr ?r))
           = take (nat 2) (splitlines ?out) @ (if (2::int) = 0 then [] # trailer_block else trailer_block)"
    by blast+
  have "diff_line_count (projr ?r) = 3" using c by (simp add: sample_lines)
  moreover have "splitlines (diff (projr ?r)) = [''a'', ''b''] @ trailer_block"
    unfolding s by (simp add: sample_lines)
  ultimately show ?thesis using i d t by simp
qed

text \<open>Claim C2 as stated fails: with the cap 1 on a diff of three lines the returned
  text has four lines, more than the cap plus one.\<close>

theorem diff_truncation_counterexample:
  "\<not> isl (get_git_changes (sample_git ''a\<newline>b\<newline>c\<newline>'') ''.'' ''main'' True 1)
   \<and> splitlines ''a\<newline>b\<newline>c\<newline>'' = [''a'', ''b'', ''c'']
   \<and> truncated (projr (get_git_changes (sample_git ''a\<newline>b\<newline>c\<newline>'') ''.'' ''main'' True 1))
   \<and> length (splitlines (diff (projr
        (get_git_changes (sample_git ''a\<newline>b\<newline>c\<newline>'') ''.'' ''main'' True 1)))) = 4
   \<and> \<not> length (splitlines (diff (projr
        (get_git_changes (sample_git ''a\<newline>b\<newline>c\<newline>'') ''.'' ''main'' True 1)))) \<le> 1 + 1"
proof -
  let ?out = "''a\<newline>b\<newline>c\<newline>''"
  have b: "bounded_diff ?out 1 = (join [CHR 0x0A] (take 1 (splitlines ?out)) @ truncation_trailer, True, 3)"
    by (simp add: bounded_diff_nonneg sample_lines)
  have "splitlines (join [CHR 0x0A] (take (nat 1) (splitlines ?out)) @ truncation_trailer)
      = take (nat 1) (splitlines ?out) @ trailer_block"
    using splitlines_truncated[of 1 ?out] by (simp add: sample_lines)
  then have "length (splitlines (join [CHR 0x0A] (take 1 (splitlines ?out)) @ truncation_trailer)) = 4"
    by (simp add: sample_lines trailer_block_def)
  then show ?thesis by (simp add: sample_run b sample_lines)
qed

text \<open>Claim C3. Without the diff only the listing and the statistics commands run.
  When they complete (the listing with return code 0) the result is the change set with
  the files and the statistics, the placeholder as diff text and no commits; the result
  does not depend on the line cap; it is an error exactly when one of the two commands
  fails; and the files and statistics are those of the call with the diff.\<close>

theorem no_diff_placeholder:
  "(git [''git'', ''diff'', ''--name-status'', base @ ''...HEAD''] wd = Completed 0 ns_out ns_err
    \<and> git [''git'', ''diff'', ''--stat'', base @ ''...HEAD''] wd = Completed st_rc st_out st_err
    \<longrightarrow> get_git_changes git wd base False L =
          Inr \<lparr>changed_files = changed_files_of ns_out, statistics = st_out,
               diff = diff_placeholder, truncated = False, diff_line_count = 0,
               commits = None\<rparr>)
   \<and> get_git_changes git wd base False L = get_git_changes git wd base False L'
   \<and> ((\<exists>e. get_git_changes git wd base False L = Inl e) \<longleftrightarrow>
        \<not> ((\<exists>out err. git [''git'', ''diff'', ''--name-status'', base @ ''...HEAD''] wd
                = Completed 0 out err)
           \<and> (\<exists>r out err. git [''git'', ''diff'', ''--stat'', base @ ''...HEAD''] wd
                = Completed r out err)))
   \<and> (get_git_changes git wd base False L = Inr cs
        \<and> get_git_changes git wd base True L' = Inr cs'
      \<longrightarrow> changed_files cs = changed_files cs' \<and> statistics cs = statistics cs'
          \<and> diff cs = diff_placeholder \<and> commits cs = None)"
proof (intro conjI impI)
  assume "git [''git'', ''diff'', ''--name-status'', base @ ''...HEAD''] wd = Completed 0 ns_out ns_err
    \<and> git [''git'', ''diff'', ''--stat'', base @ ''...HEAD''] wd = Completed st_rc st_out st_err"
  then show "get_git_changes git wd base False L =
          Inr \<lparr>changed_files = changed_files_of ns_out, statistics = st_out,
               diff = diff_placeholder, truncated = False, diff_line_count = 0,
               commits = None\<rparr>"
    by (simp add: get_git_changes_without_diff)
next
  show "get_git_changes git wd base False L = get_git_changes git wd base False L'"
    by (simp add: get_git_changes_without_diff)
next
  show "(\<exists>e. get_git_changes git wd base False L = Inl e) \<longleftrightarrow>
        \<not> ((\<exists>out err. git [''git'', ''diff'', ''--name-status'', base @ ''...HEAD''] wd
                = Completed 0 out err)
           \<and> (\<exists>r out err. git [''git'', ''diff'', ''--stat'', base @ ''...HEAD''] wd
                = Completed r out err))"
    by (auto simp: get_git_changes_without_diff split: proc_result.splits)
next
  assume h: "get_git_changes git wd base False L = Inr cs
        \<and> get_git_changes git wd base True L' = Inr cs'"
  from h get_git_changes_first_stage[of git wd base False L cs]
  obtain a b c d e where 1:
    "git [''git'', ''diff'', ''--name-status'', base @ ''...HEAD''] wd = Completed 0 a b"
    "git [''git'', ''diff'', ''--stat'', base @ ''...HEAD''] wd = Completed c d e"
    "changed_files cs = changed_files_of a" "statistics cs = d" by blast
  from h get_git_changes_first_stage[of git wd base True L' cs']
  obtain a' b' c' d' e' where 2:
    "git [''git'', ''diff'', ''--name-status'', base @ ''...HEAD''] wd = Completed 0 a' b'"
    "git [''git'', ''diff'', ''--stat'', base @ ''...HEAD''] wd = Completed c' d' e'"
    "changed_files cs' = changed_files_of a'" "statistics cs' = d'" by blast
  from 1 2 show "changed_files cs = changed_files cs'" by simp
  from 1 2 show "statistics cs = statistics cs'" by simp
  have "Inr cs = get_git_changes git wd base False L" using h by simp
  also have "\<dots> = Inr \<lparr>changed_files = changed_files_of a, statistics = d,
      diff = diff_placeholder, truncated = False, diff_line_count = 0, commits = None\<rparr>"
    using 1(1,2) by (simp add: get_git_changes_without_diff)
  finally have cs: "cs = \<lparr>changed_files = changed_files_of a, statistics = d,
      diff = diff_placeholder, truncated = False, diff_line_count = 0, commits = None\<rparr>"
    by simp
  show "diff cs = diff_placeholder" unfolding cs by simp
  show "commits cs = None" unfolding cs by simp
qed

lemma sample_changed_files:
  "changed_files_of sample_listing = [''M'' @ [CHR 0x09] @ ''server.py'']"
  by code_simp

theorem no_diff_placeholder_witness:
  "sample_git ''a\<newline>b\<newline>c\<newline>'' [''git'', ''diff'', ''--name-status'', ''main'' @ ''...HEAD''] ''.''
     = Completed 0 sample_listing []
   \<and> sample_git ''a\<newline>b\<newline>c\<newline>'' [''git'', ''diff'', ''--stat'', ''main'' @ ''...HEAD''] ''.''
     = Completed 0 '' server.py | 2 +-'' []
   \<and> get_git_changes (sample_git ''a\<newline>b\<newline>c\<newline>'') ''.'' ''main'' False (- 7) =
       Inr \<lparr>changed_files = [''M'' @ [CHR 0x09] @ ''server.py''],
            statistics = '' server.py | 2 +-'',
            diff = ''Diff not included (set include_diff=true to see full diff)'',
            truncated = False, diff_line_count = 0, commits = None\<rparr>"
  using no_diff_placeholder [of "sample_git ''a\<newline>b\<newline>c\<newline>''" "''main''" "''.''"
      sample_listing "[]" 0 "'' server.py | 2 +-''" "[]" "- 7"]
    sample_git_simps(1,2) [of "''a\<newline>b\<newline>c\<newline>''" "''.''"]
  by (simp add: sample_changed_files diff_placeholder_def del: append.simps)

lemma twelve_split:
  "splitlines twelve_lines
     = [''a'', ''b'', ''c'', ''d'', ''e'', ''f'', ''g'', ''h'', ''i'', ''j'', ''k'', ''l'']"
  by code_simp

lemma trailer_no_numbers:
  "\<not> mentions (''a\<newline>b\<newline>c\<newline>d\<newline>e'' @ truncation_trailer) ''12''"
  "\<not> mentions (''a\<newline>b\<newline>c\<newline>d\<newline>e'' @ truncation_trailer) ''5''"
  by code_simp+

text \<open>Claim C5, on the code: with the cap 5 on a diff of twelve lines the returned text
  is the first five lines and the trailer as the source writes it, a plain literal: it
  holds the names in braces and mentions neither 5 nor 12.\<close>

theorem trailer_not_formatted:
  "\<not> isl (get_git_changes (sample_git twelve_lines) ''.'' ''main'' True 5)
   \<and> diff_line_count (projr (get_git_changes (sample_git twelve_lines) ''.'' ''main'' True 5)) = 12
   \<and> truncated (projr (get_git_changes (sample_git twelve_lines) ''.'' ''main'' True 5))
   \<and> diff (projr (get_git_changes (sample_git twelve_lines) ''.'' ''main'' True 5))
       = ''a\<newline>b\<newline>c\<newline>d\<newline>e\<newline>\<newline>... Output truncated. Showing {max_diff_lines} of {len(diff_lines)} lines ...\<newline>... Use max_diff_lines parameter to see more ...''
   \<and> \<not> mentions (diff (projr (get_git_changes (sample_git twelve_lines) ''.'' ''main'' True 5))) ''12''
   \<and> \<not> mentions (diff (projr (get_git_changes (sample_git twelve_lines) ''.'' ''main'' True 5))) ''5''"
proof -
  have b: "bounded_diff twelve_lines 5
      = (''a\<newline>b\<newline>c\<newline>d\<newline>e'' @ truncation_trailer, True, 12)"
    by (simp add: bounded_diff_nonneg twelve_split)
  have t: "''a\<newline>b\<newline>c\<newline>d\<newline>e'' @ truncation_trailer
      = ''a\<newline>b\<newline>c\<newline>d\<newline>e\<newline>\<newline>... Output truncated. Showing {max_diff_lines} of {len(diff_lines)} lines ...\<newline>... Use max_diff_lines parameter to see more ...''"
    by (simp add: truncation_trailer_def)
  show ?thesis using trailer_no_numbers by (simp add: sample_run b t [symmetric])
qed

section \<open>The raw view: properties\<close>

text \<open>For a limit above 0 the view is the last \<open>limit\<close> events (all of them when there are
  fewer).\<close>

lemma slice_from_last:
  "0 < limit \<Longrightarrow> slice_from evs (- limit) = drop (length evs - nat limit) evs"
  by (auto simp: slice_from_def Let_def max_def nat_diff_distrib' intro: arg_cong[where f="\<lambda>n. drop n evs"])

lemma recent_positive_limit:
  "evs \<noteq> [] \<Longrightarrow> 0 < limit \<Longrightarrow>
     get_recent_actions_events (Feed evs) limit = RecentEvents (drop (length evs - nat limit) evs)"
  by (simp add: get_recent_actions_events_def slice_from_last)

text \<open>Claim C8, on the code: on a feed of two events the limit 0 gives both events,
  not the last 0 of them; the limit 1 gives the last one.\<close>

theorem recent_limit_zero:
  "get_recent_actions_events
     (Feed [ci_run ''2024-01-01T00:00:00Z'' ''failure'', ci_run ''2024-01-02T00:00:00Z'' ''success'']) 0
   = RecentEvents [ci_run ''2024-01-01T00:00:00Z'' ''failure'', ci_run ''2024-01-02T00:00:00Z'' ''success'']
   \<and> get_recent_actions_events
     (Feed [ci_run ''2024-01-01T00:00:00Z'' ''failure'', ci_run ''2024-01-02T00:00:00Z'' ''success'']) 1
   = RecentEvents [ci_run ''2024-01-02T00:00:00Z'' ''success'']"
  by (simp add: get_recent_actions_events_def slice_from_def)

section \<open>Template selection: properties\<close>

text \<open>A catalog that loads has the file names of the table, in its order.\<close>

lemma load_templates_filenames:
  "load_templates dir tbl = Inr ts \<Longrightarrow> map filename ts = map fst tbl"
proof (induction tbl arbitrary: ts)
  case Nil
  then show ?case by simp
next
  case (Cons p tbl)
  obtain fname ttype where p: "p = (fname, ttype)" by (cases p)
  from Cons.prems p obtain body ts' where
    "dir fname = Some body" "load_templates dir tbl = Inr ts'"
    "ts = \<lparr>filename = fname, template_type = ttype, content = body\<rparr> # ts'"
    by (auto split: option.splits sum.splits)
  then show ?case using Cons.IH p by simp
qed

lemma load_templates_total:
  "(\<forall>fname\<in>set (map fst tbl). dir fname \<noteq> None) \<Longrightarrow> \<exists>ts. load_templates dir tbl = Inr ts"
  by (induction tbl) (auto split: option.splits sum.splits)

lemma find_first:
  "find P xs = Some x \<Longrightarrow> \<exists>pre post. xs = pre @ x # post \<and> P x \<and> (\<forall>y\<in>set pre. \<not> P y)"
proof (induction xs)
  case Nil
  then show ?case by simp
next
  case (Cons a xs)
  show ?case
  proof (cases "P a")
    case True
    then have "x = a" using Cons.prems by simp
    then show ?thesis using True by (intro exI[of _ "[]"] exI[of _ xs]) simp
  next
    case False
    then obtain pre post where "xs = pre @ x # post" "P x" "\<forall>y\<in>set pre. \<not> P y"
      using Cons by auto
    then show ?thesis using False by (intro exI[of _ "a # pre"] exI[of _ post]) simp
  qed
qed

lemma template_file_resolved: "template_file ct \<in> set resolved_files"
proof (cases "map_of TYPE_MAPPING (lower ct)")
  case None
  then show ?thesis by (simp add: template_file_def resolved_files_def)
next
  case (Some f)
  then have "(lower ct, f) \<in> set TYPE_MAPPING" by (rule map_of_SomeD)
  then have "f \<in> snd ` set TYPE_MAPPING" by force
  then show ?thesis using Some by (simp add: template_file_def resolved_files_def)
qed

lemma resolved_in_catalog: "set resolved_files \<subseteq> set (map fst DEFAULT_TEMPLATES)"
  by (simp add: resolved_files_def TYPE_MAPPING_def DEFAULT_TEMPLATES_def)

lemma selected_template_nonempty:
  assumes "templates \<noteq> []"
  shows "\<exists>t. selected_template templates ct = Inr t \<and> t \<in> set templates
     \<and> ((\<exists>pre post. templates = pre @ t # post \<and> filename t = template_file ct
            \<and> (\<forall>u\<in>set pre. filename u \<noteq> template_file ct))
         \<or> ((\<forall>u\<in>set templates. filename u \<noteq> template_file ct) \<and> t = hd templates))"
proof (cases "find (\<lambda>t. filename t = template_file ct) templates")
  case None
  then have "\<forall>u\<in>set templates. filename u \<noteq> template_file ct"
    by (simp add: find_None_iff)
  moreover have "selected_template templates ct = Inr (hd templates)"
    using None assms by (cases templates) (simp_all add: selected_template_def)
  ultimately show ?thesis using assms by auto
next
  case (Some t)
  then obtain pre post where "templates = pre @ t # post" "filename t = template_file ct"
      "\<forall>u\<in>set pre. filename u \<noteq> template_file ct"
    using find_first[of "\<lambda>t. filename t = template_file ct" templates t] by blast
  moreover have "selected_template templates ct = Inr t"
    using Some assms by (cases templates) (simp_all add: selected_template_def)
  ultimately show ?thesis by auto
qed

lemma get_pr_templates_catalog:
  assumes "get_pr_templates dir = Inr templates"
  shows "map filename templates = map fst DEFAULT_TEMPLATES" and "templates \<noteq> []"
proof -
  show m: "map filename templates = map fst DEFAULT_TEMPLATES"
    using assms load_templates_filenames by (simp add: get_pr_templates_def)
  have "map fst DEFAULT_TEMPLATES \<noteq> []" by (simp add: DEFAULT_TEMPLATES_def)
  with m show "templates \<noteq> []" by auto
qed

lemma selected_template_catalog:
  assumes "get_pr_templates dir = Inr templates"
  shows "\<exists>t. selected_template templates ct = Inr t \<and> t \<in> set templates
     \<and> filename t = template_file ct"
proof -
  note c = get_pr_templates_catalog[OF assms]
  have "template_file ct \<in> set (map filename templates)"
    using template_file_resolved[of ct] resolved_in_catalog c(1) by auto
  then obtain u where u: "u \<in> set templates" "filename u = template_file ct" by auto
  from selected_template_nonempty[OF c(2), of ct] obtain t where
    t: "selected_template templates ct = Inr t" "t \<in> set templates"
    "(\<exists>pre post. templates = pre @ t # post \<and> filename t = template_file ct
            \<and> (\<forall>u\<in>set pre. filename u \<noteq> template_file ct))
         \<or> ((\<forall>u\<in>set templates. filename u \<noteq> template_file ct) \<and> t = hd templates)"
    by blast
  from t(3) u have "filename t = template_file ct" by blast
  with t(1,2) show ?thesis by blast
qed

text \<open>Claim C7. Once the catalog is loaded the suggestion is never an error: it holds
  one template of the catalog, the one whose file name is the resolved one. The resolved
  name is the entry of the keyword table for the lowered change type, and
  \<open>feature.md\<close> when there is none. On any list of templates that is not empty the
  selection gives the first template with the resolved name, and the first template of
  the list when no template has it.\<close>

theorem template_selection_total:
  "(get_pr_templates dir = Inr templates \<longrightarrow>
      (\<exists>s. suggest_template dir summary ct = Inr s
         \<and> recommended_template s \<in> set templates
         \<and> filename (recommended_template s) = template_file ct
         \<and> template_content s = content (recommended_template s)))
   \<and> (map_of TYPE_MAPPING (lower ct) = None \<longrightarrow> template_file ct = ''feature.md'')
   \<and> (map_of TYPE_MAPPING (lower ct) = Some f \<longrightarrow> template_file ct = f)
   \<and> (ts \<noteq> [] \<longrightarrow>
        (\<exists>t. selected_template ts ct = Inr t \<and> t \<in> set ts
           \<and> ((\<exists>pre post. ts = pre @ t # post \<and> filename t = template_file ct
                  \<and> (\<forall>u\<in>set pre. filename u \<noteq> template_file ct))
               \<or> ((\<forall>u\<in>set ts. filename u \<noteq> template_file ct) \<and> t = hd ts))))"
proof (intro conjI impI)
  assume g: "get_pr_templates dir = Inr templates"
  from selected_template_catalog[OF g, of ct] obtain t where
    t: "selected_template templates ct = Inr t" "t \<in> set templates"
       "filename t = template_file ct" by blast
  show "\<exists>s. suggest_template dir summary ct = Inr s
         \<and> recommended_template s \<in> set templates
         \<and> filename (recommended_template s) = template_file ct
         \<and> template_content s = content (recommended_template s)"
    using g t by (simp add: suggest_template_def)
next
  assume "map_of TYPE_MAPPING (lower ct) = None"
  then show "template_file ct = ''feature.md''" by (simp add: template_file_def)
next
  assume "map_of TYPE_MAPPING (lower ct) = Some f"
  then show "template_file ct = f" by (simp add: template_file_def)
next
  assume "ts \<noteq> []"
  then show "\<exists>t. selected_template ts ct = Inr t \<and> t \<in> set ts
           \<and> ((\<exists>pre post. ts = pre @ t # post \<and> filename t = template_file ct
                  \<and> (\<forall>u\<in>set pre. filename u \<noteq> template_file ct))
               \<or> ((\<forall>u\<in>set ts. filename u \<noteq> template_file ct) \<and> t = hd ts))"
    by (rule selected_template_nonempty)
qed

lemma sample_dir_loads: "get_pr_templates sample_dir = Inr sample_templates"
  by (simp add: get_pr_templates_def sample_templates_def sample_dir_def DEFAULT_TEMPLATES_def)

lemma sample_lookups:
  "template_file ''OPTIMIZATION'' = ''performance.md''"
  "template_file ''hotfix'' = ''feature.md''"
  "template_file ''bug'' = ''bug.md''"
  by code_simp+

theorem template_selection_total_witness:
  "get_pr_templates sample_dir = Inr sample_templates
   \<and> \<not> isl (suggest_template sample_dir ''faster loop'' ''OPTIMIZATION'')
   \<and> filename (recommended_template
        (projr (suggest_template sample_dir ''faster loop'' ''OPTIMIZATION''))) = ''performance.md''
   \<and> \<not> isl (suggest_template sample_dir ''urgent'' ''hotfix'')
   \<and> filename (recommended_template
        (projr (suggest_template sample_dir ''urgent'' ''hotfix''))) = ''feature.md''"
proof -
  have a: "\<not> isl (suggest_template sample_dir ''faster loop'' ''OPTIMIZATION'')
     \<and> filename (recommended_template
        (projr (suggest_template sample_dir ''faster loop'' ''OPTIMIZATION''))) = ''performance.md''"
    using template_selection_total [of sample_dir sample_templates "''faster loop''"
        "''OPTIMIZATION''" "[]" "[]"] sample_dir_loads
    by (auto simp: sample_lookups)
  have b: "\<not> isl (suggest_template sample_dir ''urgent'' ''hotfix'')
     \<and> filename (recommended_template
        (projr (suggest_template sample_dir ''urgent'' ''hotfix''))) = ''feature.md''"
    using template_selection_total [of sample_dir sample_templates "''urgent''"
        "''hotfix''" "[]" "[]"] sample_dir_loads
    by (auto simp: sample_lookups)
  from a b sample_dir_loads show ?thesis by simp
qed

text \<open>Claim C10. Two calls that differ in the summary only give the same result but
  for the text of the reasoning: the same template, content and hint, or the same
  error.\<close>

theorem summary_does_not_select:
  "map_sum id (\<lambda>s. s\<lparr>reasoning := []\<rparr>) (suggest_template dir summary1 ct)
     = map_sum id (\<lambda>s. s\<lparr>reasoning := []\<rparr>) (suggest_template dir summary2 ct)
   \<and> (suggest_template dir summary1 ct = Inr a \<and> suggest_template dir summary2 ct = Inr b \<longrightarrow>
        recommended_template a = recommended_template b
      \<and> template_content a = template_content b
      \<and> usage_hint a = usage_hint b
      \<and> reasoning a = ''Based on your analysis: '' @ [CHR 0x27] @ summary1
           @ [CHR 0x27] @ '', this appears to be a '' @ ct @ '' change.'')
   \<and> (isl (suggest_template dir summary1 ct) \<longleftrightarrow> isl (suggest_template dir summary2 ct))"
  by (auto simp: suggest_template_def split: sum.splits)

theorem summary_does_not_select_witness:
  "\<not> isl (suggest_template sample_dir ''fix the crash'' ''bug'')
   \<and> \<not> isl (suggest_template sample_dir ''something else'' ''bug'')
   \<and> recommended_template (projr (suggest_template sample_dir ''fix the crash'' ''bug''))
       = recommended_template (projr (suggest_template sample_dir ''something else'' ''bug''))
   \<and> template_content (projr (suggest_template sample_dir ''fix the crash'' ''bug''))
       = template_content (projr (suggest_template sample_dir ''something else'' ''bug''))
   \<and> reasoning (projr (suggest_template sample_dir ''fix the crash'' ''bug''))
       \<noteq> reasoning (projr (suggest_template sample_dir ''something else'' ''bug''))"
proof -
  let ?x = "suggest_template sample_dir ''fix the crash'' ''bug''"
  let ?y = "suggest_template sample_dir ''something else'' ''bug''"
  obtain t where t: "selected_template sample_templates ''bug'' = Inr t"
    using selected_template_catalog[OF sample_dir_loads, of "''bug''"] by blast
  have x: "?x = Inr (projr ?x)" and y: "?y = Inr (projr ?y)"
    using t by (simp_all add: suggest_template_def sample_dir_loads)
  from summary_does_not_select [of sample_dir "''fix the crash''" "''bug''" "''something else''"
      "projr ?x" "projr ?y"] x y
  have "recommended_template (projr ?x) = recommended_template (projr ?y)"
    "template_content (projr ?x) = template_content (projr ?y)" by blast+
  moreover have "\<not> isl ?x" "\<not> isl ?y"
    using t by (simp_all add: suggest_template_def sample_dir_loads)
  moreover have "reasoning (projr ?x) \<noteq> reasoning (projr ?y)"
    using t by (simp add: suggest_template_def sample_dir_loads)
  ultimately show ?thesis by simp
qed

end
